theory Spec2Isabelle
  imports
    Main
    "HOL-Library.Sublist"
    "HOL-Library.AList"
    "HOL-Library.List_Lexorder"
    "HOL-Library.Char_ord"
    "HOL-Library.Multiset"
begin

section \<open>Cloudtrail2IAM: the embedding of cloudtrail2IAM.py\<close>

text \<open>
  The program lists the objects of an S3 prefix, downloads every CloudTrail log among
  them, reads the records of each log and collects, per actor ARN, the set of actions
  the actor performed, in the global dictionary \<open>ALL_ACTIONS\<close>. Strings are
  \<open>char list\<close>; Python's \<open>x in s\<close> on two strings is \<^const>\<open>sublist\<close>,
  \<open>s.startswith(p)\<close> is \<^const>\<open>prefix\<close> and \<open>s.endswith(p)\<close> is
  \<^const>\<open>suffix\<close>. Exceptions are values of \<open>py_error\<close>.
\<close>

subsection \<open>Python string operations\<close>

text \<open>
  \<open>s.replace(old, new)\<close>: every occurrence of \<open>old\<close>, found from left to right
  without overlaps, is replaced. With an empty \<open>old\<close> Python puts \<open>new\<close> before
  every character and at the end.
\<close>

function py_replace :: "string \<Rightarrow> string \<Rightarrow> string \<Rightarrow> string" where
  "py_replace old new s =
     (if old = [] then new @ concat (map (\<lambda>c. c # new) s)
      else if s = [] then []
      else if prefix old s then new @ py_replace old new (drop (length old) s)
      else hd s # py_replace old new (tl s))"
  by pat_completeness auto
termination
  by (relation "measure (\<lambda>(old, new, s). length s)") (auto simp: neq_Nil_conv)


text \<open>
  \<open>s.split(c)\<close> for a separator of one character: the result is never empty, and
  \<open>''''.split(c)\<close> is the list of the empty string.
\<close>

fun py_split :: "char \<Rightarrow> string \<Rightarrow> string list" where
  "py_split c [] = [] # []"
| "py_split c (x # xs) =
     (if x = c then [] # py_split c xs
      else (case py_split c xs of [] \<Rightarrow> [x # []] | seg # segs \<Rightarrow> (x # seg) # segs))"

fun py_join :: "string \<Rightarrow> string list \<Rightarrow> string" where
  "py_join sep [] = []"
| "py_join sep [x] = x"
| "py_join sep (x # y # ys) = x @ sep @ py_join sep (y # ys)"

text \<open>
  \<open>s.lower()\<close> on the ASCII letters; every other character is kept as it is.
\<close>

definition lower_char :: "char \<Rightarrow> char" where
  "lower_char c =
     (let n = (of_char c :: nat) in if 65 \<le> n \<and> n \<le> 90 then char_of (n + 32) else c)"

definition py_lower :: "string \<Rightarrow> string" where
  "py_lower s = map lower_char s"

subsection \<open>Exceptions and JSON values\<close>

datatype py_error =
    ClientError | OSError | UnicodeDecodeError | JSONDecodeError
  | AttributeError | TypeError | KeyError | IndexError | ValueError

text \<open>
  What \<open>json.load\<close> returns: \<open>None\<close>, a bool, a number, a \<open>str\<close>, a \<open>list\<close> or a
  \<open>dict\<close>. \<open>JObj kvs\<close> is the dict with the items \<open>kvs\<close> in insertion order.
  No operation of the program is defined on a number, so one constructor stands for
  \<open>int\<close> and \<open>float\<close>.
\<close>

datatype json =
    JNull | JBool bool | JNum int | JStr string
  | JArr "json list" | JObj "(string \<times> json) list"

text \<open>\<open>k in v\<close> for a string \<open>k\<close>.\<close>

fun py_in :: "string \<Rightarrow> json \<Rightarrow> py_error + bool" where
  "py_in k (JObj kvs) = Inr (map_of kvs k \<noteq> None)"
| "py_in k (JArr xs) = Inr (JStr k \<in> set xs)"
| "py_in k (JStr s) = Inr (sublist k s)"
| "py_in k JNull = Inl TypeError"
| "py_in k (JBool b) = Inl TypeError"
| "py_in k (JNum n) = Inl TypeError"

text \<open>\<open>v[k]\<close> for a string \<open>k\<close>.\<close>

fun py_getitem :: "json \<Rightarrow> string \<Rightarrow> py_error + json" where
  "py_getitem (JObj kvs) k = (case map_of kvs k of None \<Rightarrow> Inl KeyError | Some v \<Rightarrow> Inr v)"
| "py_getitem v k = Inl TypeError"

text \<open>\<open>v.get(k, d)\<close>: only a dict has the method.\<close>

fun py_get :: "json \<Rightarrow> string \<Rightarrow> json \<Rightarrow> py_error + json" where
  "py_get (JObj kvs) k d = Inr (case map_of kvs k of None \<Rightarrow> d | Some v \<Rightarrow> v)"
| "py_get v k d = Inl AttributeError"

text \<open>
  \<open>for x in v\<close>: a list gives its elements, a dict its keys, a string its
  characters; nothing else can be iterated.
\<close>

fun py_iter :: "json \<Rightarrow> py_error + json list" where
  "py_iter (JArr xs) = Inr xs"
| "py_iter (JObj kvs) = Inr (map (\<lambda>kv. JStr (fst kv)) kvs)"
| "py_iter (JStr s) = Inr (map (\<lambda>c. JStr [c]) s)"
| "py_iter v = Inl TypeError"

subsection \<open>\<open>fix_arn\<close>\<close>

definition fix_arn :: "string \<Rightarrow> string" where
  "fix_arn arn =
     (if prefix ''arn:aws:sts::'' arn then
        (let arn1 = py_replace ''arn:aws:sts::'' ''arn:aws:iam::'' arn;
             arn2 = py_replace ''assumed-role'' ''role'' arn1
         in py_join ''/'' (take 2 (py_split CHR ''/'' arn2)))
      else arn)"


text \<open>\<open>fix_arn(v)\<close> on a loaded value: \<open>startswith\<close> exists on strings only.\<close>

fun py_fix_arn :: "json \<Rightarrow> py_error + string" where
  "py_fix_arn (JStr s) = Inr (fix_arn s)"
| "py_fix_arn v = Inl AttributeError"

text \<open>\<open>v.split(".")[0]\<close>.\<close>

fun py_split_first :: "json \<Rightarrow> py_error + string" where
  "py_split_first (JStr s) =
     (case py_split CHR ''.'' s of [] \<Rightarrow> Inl IndexError | seg # segs \<Rightarrow> Inr seg)"
| "py_split_first v = Inl AttributeError"

text \<open>\<open>s + v\<close> for a string \<open>s\<close>.\<close>

fun py_concat :: "string \<Rightarrow> json \<Rightarrow> py_error + string" where
  "py_concat s (JStr t) = Inr (s @ t)"
| "py_concat s v = Inl TypeError"

subsection \<open>The aggregation index\<close>

text \<open>
  \<open>ALL_ACTIONS\<close> is a dict from ARN to a set of action labels. A dict keeps its keys in
  insertion order, and assigning to a key that is there keeps its place, which is
  \<^const>\<open>AList.update\<close>.
\<close>

type_synonym index = "(string \<times> string set) list"

text \<open>Lines 45 to 48, run while the semaphore is held.\<close>

definition merge :: "index \<Rightarrow> string \<Rightarrow> string \<Rightarrow> index" where
  "merge idx arn action =
     (case map_of idx arn of
        None \<Rightarrow> AList.update arn {action} idx
      | Some actions \<Rightarrow>
          if actions = {} then AList.update arn {action} idx
          else AList.update arn (insert action actions) idx)"

text \<open>Merging a sequence of pairs, one after the other.\<close>

fun merge_all :: "(string \<times> string) list \<Rightarrow> index \<Rightarrow> index" where
  "merge_all [] idx = idx"
| "merge_all ((arn, action) # ps) idx = merge_all ps (merge idx arn action)"

subsection \<open>\<open>extract_actions_from_log_file\<close>\<close>

text \<open>
  Lines 41 to 43 for one record: an exception, nothing (the guard of line 41 is
  false), or the normalised ARN and the action label.
\<close>

definition record_action :: "json \<Rightarrow> py_error + (string \<times> string) option" where
  "record_action record =
     (case py_in ''userIdentity'' record of
        Inl e \<Rightarrow> Inl e
      | Inr has_identity \<Rightarrow>
          if \<not> has_identity then Inr None
          else
            (case py_getitem record ''userIdentity'' of
               Inl e \<Rightarrow> Inl e
             | Inr identity \<Rightarrow>
                 (case py_in ''arn'' identity of
                    Inl e \<Rightarrow> Inl e
                  | Inr has_arn \<Rightarrow>
                      if \<not> has_arn then Inr None
                      else
                        (case py_getitem identity ''arn'' of
                           Inl e \<Rightarrow> Inl e
                         | Inr raw_arn \<Rightarrow>
                             (case py_fix_arn raw_arn of
                                Inl e \<Rightarrow> Inl e
                              | Inr arn \<Rightarrow>
                                  (case py_getitem record ''eventSource'' of
                                     Inl e \<Rightarrow> Inl e
                                   | Inr source \<Rightarrow>
                                       (case py_split_first source of
                                          Inl e \<Rightarrow> Inl e
                                        | Inr service \<Rightarrow>
                                            (case py_getitem record ''eventName'' of
                                               Inl e \<Rightarrow> Inl e
                                             | Inr name \<Rightarrow>
                                                 (case py_concat (service @ '' - '') name of
                                                    Inl e \<Rightarrow> Inl e
                                                  | Inr action \<Rightarrow>
                                                      Inr (Some (arn, action)))))))))))"

text \<open>
  The loop of line 40 over the records: the first exception ends it, and what was
  merged before stays in the index.
\<close>

fun extract_records :: "json list \<Rightarrow> index \<Rightarrow> py_error option \<times> index" where
  "extract_records [] idx = (None, idx)"
| "extract_records (r # rs) idx =
     (case record_action r of
        Inl e \<Rightarrow> (Some e, idx)
      | Inr None \<Rightarrow> extract_records rs idx
      | Inr (Some (arn, action)) \<Rightarrow> extract_records rs (merge idx arn action))"

text \<open>
  \<open>load\<close> stands for \<open>gzip.open\<close> followed by \<open>json.load\<close> on the downloaded bytes:
  it gives the loaded value or the exception raised.
\<close>

definition extract_actions_from_log_file ::
  "('raw \<Rightarrow> py_error + json) \<Rightarrow> 'raw \<Rightarrow> index \<Rightarrow> py_error option \<times> index" where
  "extract_actions_from_log_file load raw idx =
     (case load raw of
        Inl e \<Rightarrow> (Some e, idx)
      | Inr data \<Rightarrow>
          (case py_get data ''Records'' (JArr []) of
             Inl e \<Rightarrow> (Some e, idx)
           | Inr records \<Rightarrow>
               (case py_iter records of
                  Inl e \<Rightarrow> (Some e, idx)
                | Inr rs \<Rightarrow> extract_records rs idx)))"

subsection \<open>\<open>process_log_object\<close>, \<open>get_all_keys\<close> and \<open>main\<close>\<close>

record log_obj =
  Key :: string
  Size :: int

text \<open>
  The state of a run: the global dictionary, and the keys \<open>download_log_file\<close> was
  called with, in call order.
\<close>

record state =
  ALL_ACTIONS :: index
  downloaded :: "string list"

text \<open>The guard of line 67.\<close>

definition skipped :: "string \<Rightarrow> bool" where
  "skipped log_key \<longleftrightarrow> \<not> sublist ''.json.gz'' log_key \<or> sublist ''digest'' (py_lower log_key)"

text \<open>
  The guard as the specification words it: the key does not end in the suffix, or it
  names a digest file.
\<close>

definition skipped_spec :: "string \<Rightarrow> bool" where
  "skipped_spec log_key \<longleftrightarrow> \<not> suffix ''.json.gz'' log_key \<or> sublist ''digest'' (py_lower log_key)"

text \<open>
  \<open>s3_client\<close> stands for \<open>download_file\<close> on the bucket of the run: the bytes of the
  object or the exception raised.
\<close>

definition process_log_object ::
  "(string \<Rightarrow> py_error + 'raw) \<Rightarrow> ('raw \<Rightarrow> py_error + json) \<Rightarrow> log_obj \<Rightarrow> state
     \<Rightarrow> py_error option \<times> state" where
  "process_log_object s3_client load obj st =
     (let log_key = Key obj in
      if skipped log_key then (None, st)
      else
        (let st1 = st\<lparr>downloaded := downloaded st @ [log_key]\<rparr> in
         case s3_client log_key of
           Inl e \<Rightarrow> (Some e, st1)
         | Inr raw \<Rightarrow>
             (case extract_actions_from_log_file load raw (ALL_ACTIONS st1) of
                (r, idx) \<Rightarrow> (r, st1\<lparr>ALL_ACTIONS := idx\<rparr>))))"

text \<open>
  The paginator gives the pages of the listing, each with or without \<open>Contents\<close>, or
  raises; then nothing is returned.
\<close>

definition get_all_keys :: "py_error + log_obj list option list \<Rightarrow> py_error + log_obj list" where
  "get_all_keys pages =
     (case pages of
        Inl e \<Rightarrow> Inl e
      | Inr ps \<Rightarrow> Inr (concat (map (\<lambda>page. case page of None \<Rightarrow> [] | Some contents \<Rightarrow> contents) ps)))"

text \<open>
  The executor of lines 92 and 93. Every submitted task runs to its end, whatever the
  other tasks do: a task that raises keeps its exception in its future. The tasks
  touch the shared dictionary only inside the semaphore, and here they run one after
  the other in submission order, as the pool does with one worker. The result is the
  list of the futures' outcomes and the state after the last task.
\<close>

fun run_pool ::
  "(string \<Rightarrow> py_error + 'raw) \<Rightarrow> ('raw \<Rightarrow> py_error + json) \<Rightarrow> log_obj list \<Rightarrow> state
     \<Rightarrow> py_error option list \<times> state" where
  "run_pool s3_client load [] st = ([], st)"
| "run_pool s3_client load (obj # objs) st =
     (case process_log_object s3_client load obj st of
        (r, st1) \<Rightarrow> (case run_pool s3_client load objs st1 of (rs, st2) \<Rightarrow> (r # rs, st2)))"

text \<open>
  The loop of lines 94 and 95: \<open>future.result()\<close> raises the exception of the first
  future that holds one.
\<close>

fun collect_results :: "py_error option list \<Rightarrow> py_error option" where
  "collect_results [] = None"
| "collect_results (None # rs) = collect_results rs"
| "collect_results (Some e # rs) = Some e"

text \<open>Lines 98 to 103: the dictionary the global is bound to after filtering.\<close>

definition filter_by_name :: "string option \<Rightarrow> index \<Rightarrow> index" where
  "filter_by_name target_name idx =
     (case target_name of
        None \<Rightarrow> idx
      | Some t \<Rightarrow>
          if t = [] then idx
          else foldl (\<lambda>tmp (arn, actions). if sublist t arn then AList.update arn actions tmp else tmp)
                 [] idx)"

text \<open>Lines 105 to 109: each ARN with its sorted actions, and the lines printed.\<close>

definition sorted_actions :: "index \<Rightarrow> (string \<times> string list) list" where
  "sorted_actions idx = map (\<lambda>(arn, actions). (arn, sorted_list_of_set actions)) idx"

definition print_report :: "(string \<times> string list) list \<Rightarrow> string list" where
  "print_report entries =
     concat (map (\<lambda>(arn, actions).
       (''Actions performed by '' @ arn) # map (\<lambda>action. ''- '' @ action) actions) entries)"

text \<open>
  \<open>main\<close>, from the listing on: the printed lines or the exception that leaves
  \<open>main\<close>, and the final state. \<open>ThreadPoolExecutor\<close> refuses a number of workers
  below one. When \<open>future.result()\<close> raises, the executor still waits for every
  task before the exception goes on.
\<close>

definition main ::
  "int \<Rightarrow> string option \<Rightarrow> py_error + log_obj list option list
     \<Rightarrow> (string \<Rightarrow> py_error + 'raw) \<Rightarrow> ('raw \<Rightarrow> py_error + json) \<Rightarrow> state
     \<Rightarrow> (py_error + string list) \<times> state" where
  "main threads target_name pages s3_client load st =
     (case get_all_keys pages of
        Inl e \<Rightarrow> (Inl e, st)
      | Inr logs_list \<Rightarrow>
          if threads \<le> 0 then (Inl ValueError, st)
          else
            (case run_pool s3_client load logs_list st of
               (results, st1) \<Rightarrow>
                 (case collect_results results of
                    Some e \<Rightarrow> (Inl e, st1)
                  | None \<Rightarrow>
                      (let st2 = st1\<lparr>ALL_ACTIONS := filter_by_name target_name (ALL_ACTIONS st1)\<rparr>
                       in (Inr (print_report (sorted_actions (ALL_ACTIONS st2))), st2)))))"

definition initial_state :: state where
  "initial_state = \<lparr>ALL_ACTIONS = [], downloaded = []\<rparr>"

subsection \<open>Views of a run, used to state the properties\<close>

text \<open>
  What the loop of line 40 does with a list of records, seen apart: the pairs it
  merges (those of the records before the first exception) and the exception it ends
  with.
\<close>

fun yielded :: "json list \<Rightarrow> (string \<times> string) list" where
  "yielded [] = []"
| "yielded (r # rs) =
     (case record_action r of
        Inl e \<Rightarrow> []
      | Inr None \<Rightarrow> yielded rs
      | Inr (Some p) \<Rightarrow> p # yielded rs)"

fun records_error :: "json list \<Rightarrow> py_error option" where
  "records_error [] = None"
| "records_error (r # rs) =
     (case record_action r of Inl e \<Rightarrow> Some e | Inr p \<Rightarrow> records_error rs)"

text \<open>
  The records the loop runs over for a listed object: none when the object is
  skipped, cannot be downloaded or loaded, or holds nothing to iterate over.
\<close>

definition object_records ::
  "(string \<Rightarrow> py_error + 'raw) \<Rightarrow> ('raw \<Rightarrow> py_error + json) \<Rightarrow> log_obj \<Rightarrow> json list" where
  "object_records s3_client load obj =
     (if skipped (Key obj) then []
      else
        (case s3_client (Key obj) of
           Inl e \<Rightarrow> []
         | Inr raw \<Rightarrow>
             (case load raw of
                Inl e \<Rightarrow> []
              | Inr data \<Rightarrow>
                  (case py_get data ''Records'' (JArr []) of
                     Inl e \<Rightarrow> []
                   | Inr records \<Rightarrow>
                       (case py_iter records of Inl e \<Rightarrow> [] | Inr rs \<Rightarrow> rs)))))"

text \<open>The exception a task ends with; it does not depend on the dictionary.\<close>

definition object_error ::
  "(string \<Rightarrow> py_error + 'raw) \<Rightarrow> ('raw \<Rightarrow> py_error + json) \<Rightarrow> log_obj \<Rightarrow> py_error option" where
  "object_error s3_client load obj = fst (process_log_object s3_client load obj initial_state)"

declare py_replace.simps [simp del]

section \<open>Properties of the string operations\<close>







lemma py_split_not_Nil: "py_split c s \<noteq> []"
  by (induction s) (auto split: list.splits)

lemma py_split_Cons_sep: "py_split c (c # xs) = [] # py_split c xs"
  by simp

lemma py_split_Cons_other:
  "x \<noteq> c \<Longrightarrow> py_split c (x # xs) = (x # hd (py_split c xs)) # tl (py_split c xs)"
  using py_split_not_Nil [of c xs] by (cases "py_split c xs") auto

declare py_split.simps(2) [simp del]




lemma hd_py_split: "hd (py_split c s) = takeWhile (\<lambda>x. x \<noteq> c) s"
  by (induction s) (auto simp: py_split_Cons_other py_split_Cons_sep)



lemma py_join_split: "py_join [c] (py_split c s) = s"
proof (induction s)
  case Nil
  then show ?case by simp
next
  case (Cons x s)
  show ?case
  proof (cases "x = c")
    case True
    with Cons show ?thesis
      using py_split_not_Nil [of c s] by (cases "py_split c s") (auto simp: py_split_Cons_sep)
  next
    case False
    with Cons show ?thesis
      by (cases "py_split c s"; cases "tl (py_split c s)")
        (auto simp: py_split_not_Nil py_split_Cons_other)
  qed
qed





section \<open>Properties of the normalizer\<close>








subsection \<open>C2: the normalizer\<close>




section \<open>Properties of the index\<close>

lemma map_of_merge:
  "map_of (merge idx arn action) =
     (map_of idx)(arn \<mapsto> insert action (case map_of idx arn of None \<Rightarrow> {} | Some actions \<Rightarrow> actions))"
  by (auto simp: merge_def update_conv' split: option.splits)

lemma merge_new: "map_of idx arn = None \<Longrightarrow> merge idx arn action = idx @ [(arn, {action})]"
  by (induction idx) (auto simp: merge_def split: if_splits)

lemma merge_twice: "merge (merge idx arn action) arn action = merge idx arn action"
proof -
  obtain actions where a: "map_of (merge idx arn action) arn = Some actions" "action \<in> actions"
    by (simp add: map_of_merge)
  then have "insert action actions = actions" "actions \<noteq> {}" by auto
  with a have "merge (merge idx arn action) arn action = AList.update arn actions (merge idx arn action)"
    by (simp add: merge_def [of "merge idx arn action"])
  with a show ?thesis by (simp add: update_triv)
qed

lemma distinct_merge: "distinct (map fst idx) \<Longrightarrow> distinct (map fst (merge idx arn action))"
  by (simp add: merge_def distinct_update split: option.splits)

lemma merge_all_append: "merge_all (ps @ qs) idx = merge_all qs (merge_all ps idx)"
  by (induction ps idx rule: merge_all.induct) auto

lemma distinct_merge_all: "distinct (map fst idx) \<Longrightarrow> distinct (map fst (merge_all ps idx))"
  by (induction ps idx rule: merge_all.induct) (auto simp: distinct_merge)

lemma map_of_merge_all:
  "map_of (merge_all ps idx) arn =
     (case map_of idx arn of
        None \<Rightarrow> if arn \<in> fst ` set ps then Some {l. (arn, l) \<in> set ps} else None
      | Some actions \<Rightarrow> Some (actions \<union> {l. (arn, l) \<in> set ps}))"
proof (induction ps idx rule: merge_all.induct)
  case (1 idx)
  then show ?case by (simp split: option.splits)
next
  case (2 a action ps idx)
  then show ?case
    by (auto simp: map_of_merge image_iff split: option.splits)
qed

subsection \<open>C6: merging is idempotent\<close>

text \<open>
  C6: for every index, identity and label, merging the pair a second time gives the
  index that merging it once gave. Merging an identity that is not in the index
  appends it with the singleton set of the label; merging one that is there adds the
  label to its set; no other identity is touched.
\<close>

theorem merge_idempotent:
  "merge (merge idx arn action) arn action = merge idx arn action \<and>
   (map_of idx arn = None \<longrightarrow>
      merge idx arn action = idx @ [(arn, {action})] \<and>
      map_of (merge idx arn action) arn = Some {action}) \<and>
   (map_of idx arn = Some actions \<longrightarrow>
      map_of (merge idx arn action) arn = Some (insert action actions)) \<and>
   (other \<noteq> arn \<longrightarrow> map_of (merge idx arn action) other = map_of idx other)"
proof (intro conjI impI)
  show "merge (merge idx arn action) arn action = merge idx arn action"
    by (rule merge_twice)
  show "merge idx arn action = idx @ [(arn, {action})]" if "map_of idx arn = None"
    using that by (rule merge_new)
  show "map_of (merge idx arn action) arn = Some {action}" if "map_of idx arn = None"
    using that by (simp add: map_of_merge)
  show "map_of (merge idx arn action) arn = Some (insert action actions)"
    if "map_of idx arn = Some actions"
    using that by (simp add: map_of_merge)
  show "map_of (merge idx arn action) other = map_of idx other" if "other \<noteq> arn"
    using that by (simp add: map_of_merge)
qed

theorem merge_idempotent_witness:
  "merge [] ''A'' ''x'' = [(''A'', {''x''})] \<and>
   merge (merge [(''A'', {''x''})] ''A'' ''y'') ''A'' ''y'' = merge [(''A'', {''x''})] ''A'' ''y'' \<and>
   map_of (merge [(''A'', {''x''})] ''A'' ''y'') ''A'' = Some {''y'', ''x''} \<and>
   map_of (merge [(''A'', {''x''})] ''A'' ''y'') ''B'' = None"
  using merge_idempotent [of "[]" "''A''" "''x''" "{}" "''A''"]
    merge_idempotent [of "[(''A'', {''x''})]" "''A''" "''y''" "{''x''}" "''B''"]
  by simp

subsection \<open>C7: the order of the merges does not change the contents\<close>

text \<open>
  C7: each merge runs alone while the semaphore is held, so an interleaving of the
  workers is an ordering of the pairs. Merging the same pairs in any two orders, from
  the empty index, gives the same mapping from identity to set of labels.
\<close>

theorem merge_all_order_independent:
  assumes "mset ps = mset qs"
  shows "map_of (merge_all ps []) = map_of (merge_all qs [])"
proof
  fix arn
  from assms have "set ps = set qs" by (rule mset_eq_setD)
  then show "map_of (merge_all ps []) arn = map_of (merge_all qs []) arn"
    by (simp add: map_of_merge_all)
qed

theorem merge_all_order_independent_witness:
  "map_of (merge_all [(''A'', ''x''), (''B'', ''z''), (''A'', ''y'')] []) =
   map_of (merge_all [(''A'', ''y''), (''A'', ''x''), (''B'', ''z'')] [])"
proof -
  have "mset [(''A'', ''x''), (''B'', ''z''), (''A'', ''y'')] =
        mset [(''A'', ''y''), (''A'', ''x''), (''B'', ''z'')]"
    by simp
  then show ?thesis by (rule merge_all_order_independent)
qed

section \<open>Properties of the record extraction\<close>

lemma py_getitem_Inr:
  "py_getitem v k = Inr x \<longleftrightarrow> (\<exists>kvs. v = JObj kvs \<and> map_of kvs k = Some x)"
  by (cases v) (auto split: option.splits)

lemma py_in_getitem:
  "py_getitem v k = Inr x \<Longrightarrow> py_in k v = Inr True"
  by (cases v) (auto split: option.splits)

lemma py_fix_arn_Inr: "py_fix_arn v = Inr s \<longleftrightarrow> (\<exists>a. v = JStr a \<and> s = fix_arn a)"
  by (cases v) auto

lemma py_split_first_JStr:
  "py_split_first (JStr s) = Inr (takeWhile (\<lambda>c. c \<noteq> CHR ''.'') s)"
  using py_split_not_Nil [of "CHR ''.''" s] hd_py_split [of "CHR ''.''" s]
  by (cases "py_split CHR ''.'' s") auto

lemma py_split_first_Inr:
  "py_split_first v = Inr s \<longleftrightarrow> (\<exists>t. v = JStr t \<and> s = takeWhile (\<lambda>c. c \<noteq> CHR ''.'') t)"
  by (cases v) (auto simp: py_split_first_JStr simp del: py_split_first.simps(1))

lemma py_concat_Inr: "py_concat s v = Inr t \<longleftrightarrow> (\<exists>u. v = JStr u \<and> t = s @ u)"
  by (cases v) auto

lemma record_action_Some:
  "record_action r = Inr (Some (k, l)) \<longleftrightarrow>
     (\<exists>kvs ui a es en.
        r = JObj kvs \<and> map_of kvs ''userIdentity'' = Some (JObj ui) \<and>
        map_of ui ''arn'' = Some (JStr a) \<and>
        map_of kvs ''eventSource'' = Some (JStr es) \<and>
        map_of kvs ''eventName'' = Some (JStr en) \<and>
        k = fix_arn a \<and> l = takeWhile (\<lambda>c. c \<noteq> CHR ''.'') es @ '' - '' @ en)"
  (is "?L \<longleftrightarrow> ?R")
proof
  assume ?L
  then obtain identity raw_arn source service name where
    g: "py_getitem r ''userIdentity'' = Inr identity"
       "py_getitem identity ''arn'' = Inr raw_arn"
       "py_fix_arn raw_arn = Inr k"
       "py_getitem r ''eventSource'' = Inr source"
       "py_split_first source = Inr service"
       "py_getitem r ''eventName'' = Inr name"
       "py_concat (service @ '' - '') name = Inr l"
    unfolding record_action_def
    by (auto split: sum.splits if_splits)
  then show ?R
    unfolding py_getitem_Inr py_fix_arn_Inr py_split_first_Inr py_concat_Inr
    by auto
next
  assume ?R
  then show ?L
    unfolding record_action_def
    by (auto simp: py_split_first_JStr simp del: py_split_first.simps(1))
qed

lemma record_action_no_identity:
  "map_of kvs ''userIdentity'' = None \<Longrightarrow> record_action (JObj kvs) = Inr None"
  by (simp add: record_action_def)

lemma record_action_no_arn:
  "map_of kvs ''userIdentity'' = Some (JObj ui) \<Longrightarrow> map_of ui ''arn'' = None \<Longrightarrow>
     record_action (JObj kvs) = Inr None"
  by (simp add: record_action_def)




lemma extract_records_eq:
  "extract_records rs idx = (records_error rs, merge_all (yielded rs) idx)"
  by (induction rs arbitrary: idx) (auto split: sum.splits option.splits)

lemma yielded_no_error:
  "records_error rs = None \<Longrightarrow>
     yielded rs =
       concat (map (\<lambda>r. case record_action r of Inr (Some p) \<Rightarrow> [p] | _ \<Rightarrow> []) rs)"
  by (induction rs) (auto split: sum.splits option.splits)

lemma records_error_None:
  "records_error rs = None \<longleftrightarrow> (\<forall>r \<in> set rs. \<exists>p. record_action r = Inr p)"
  by (induction rs) (auto split: sum.splits)

lemma set_yielded: "p \<in> set (yielded rs) \<Longrightarrow> \<exists>r \<in> set rs. record_action r = Inr (Some p)"
  by (induction rs) (auto split: sum.splits option.splits)



subsection \<open>C10: a record with an identity and without an event field\<close>




subsection \<open>C4: which records yield a pair\<close>

text \<open>
  C4, as stated, fails: the guard of line 41 tests that the field is there, not that it
  is non-empty, so a record whose \<open>userIdentity.arn\<close> is the empty string yields a
  pair, under the empty identity.
\<close>

theorem record_action_empty_arn_counterexample:
  "record_action
     (JObj [(''eventSource'', JStr ''s3.amazonaws.com''), (''eventName'', JStr ''GetObject''),
            (''userIdentity'', JObj [(''arn'', JStr [])])]) =
   Inr (Some ([], ''s3 - GetObject''))"
  by code_simp

text \<open>
  C4, amended: a record yields a pair exactly when it is an object whose
  \<open>userIdentity\<close> is an object with a string \<open>arn\<close> (empty or not) and whose
  \<open>eventSource\<close> and \<open>eventName\<close> are strings; the identity of the pair is the
  normalised \<open>arn\<close> and its label is the part of \<open>eventSource\<close> before the first
  dot, followed by \<open>" - "\<close> and \<open>eventName\<close>. An object without \<open>userIdentity\<close>, or
  whose \<open>userIdentity\<close> object has no \<open>arn\<close>, yields nothing. A document none of
  whose records raises merges exactly the pairs of its records, in order.
\<close>

theorem record_action_yields:
  "(record_action r = Inr (Some (k, l)) \<longleftrightarrow>
      (\<exists>kvs ui a es en.
         r = JObj kvs \<and> map_of kvs ''userIdentity'' = Some (JObj ui) \<and>
         map_of ui ''arn'' = Some (JStr a) \<and>
         map_of kvs ''eventSource'' = Some (JStr es) \<and>
         map_of kvs ''eventName'' = Some (JStr en) \<and>
         k = fix_arn a \<and> l = takeWhile (\<lambda>c. c \<noteq> CHR ''.'') es @ '' - '' @ en)) \<and>
   (map_of kvs ''userIdentity'' = None \<longrightarrow> record_action (JObj kvs) = Inr None) \<and>
   (map_of kvs ''userIdentity'' = Some (JObj ui) \<and> map_of ui ''arn'' = None \<longrightarrow>
      record_action (JObj kvs) = Inr None) \<and>
   ((\<forall>r \<in> set rs. \<exists>p. record_action r = Inr p) \<longrightarrow>
      extract_records rs idx =
        (None, merge_all (concat (map (\<lambda>r. case record_action r of
                                              Inr (Some p) \<Rightarrow> [p] | _ \<Rightarrow> []) rs)) idx))"
  using record_action_Some [of r k l] record_action_no_identity [of kvs]
    record_action_no_arn [of kvs ui] yielded_no_error [of rs] extract_records_eq [of rs idx]
    records_error_None [of rs]
  by simp

theorem record_action_yields_witness:
  "record_action
     (JObj [(''eventSource'', JStr ''s3.amazonaws.com''), (''eventName'', JStr ''GetObject''),
            (''userIdentity'', JObj [(''arn'', JStr ''arn:aws:iam::1:user/alice'')])]) =
     Inr (Some (''arn:aws:iam::1:user/alice'', ''s3 - GetObject'')) \<and>
   record_action (JObj [(''eventSource'', JStr ''s3.amazonaws.com''),
                        (''eventName'', JStr ''GetObject'')]) = Inr None \<and>
   record_action (JObj [(''userIdentity'', JObj [(''type'', JStr ''AWSService'')])]) = Inr None \<and>
   extract_records
     [JObj [(''eventSource'', JStr ''s3.amazonaws.com''), (''eventName'', JStr ''GetObject''),
            (''userIdentity'', JObj [(''arn'', JStr ''arn:aws:iam::1:user/alice'')])],
      JObj [(''userIdentity'', JObj [(''type'', JStr ''AWSService'')])]] [] =
     (None, [(''arn:aws:iam::1:user/alice'', {''s3 - GetObject''})])"
proof -
  let ?alice = "JObj [(''eventSource'', JStr ''s3.amazonaws.com''), (''eventName'', JStr ''GetObject''),
            (''userIdentity'', JObj [(''arn'', JStr ''arn:aws:iam::1:user/alice'')])]"
  let ?svc = "[(''userIdentity'', JObj [(''type'', JStr ''AWSService'')])]"
  let ?anon = "[(''eventSource'', JStr ''s3.amazonaws.com''), (''eventName'', JStr ''GetObject'')]"
  have a: "record_action ?alice = Inr (Some (''arn:aws:iam::1:user/alice'', ''s3 - GetObject''))"
    by code_simp
  have n1: "map_of ?anon ''userIdentity'' = None" by simp
  have n2: "map_of ?svc ''userIdentity'' = Some (JObj [(''type'', JStr ''AWSService'')]) \<and>
            map_of [(''type'', JStr ''AWSService'')] ''arn'' = None" by simp
  have e: "\<forall>r \<in> set [?alice, JObj ?svc]. \<exists>p. record_action r = Inr p"
    using a n2 by (simp add: record_action_no_arn)
  note t = record_action_yields
    [of ?alice "''arn:aws:iam::1:user/alice''" "''s3 - GetObject''" ?svc
        "[(''type'', JStr ''AWSService'')]" "[?alice, JObj ?svc]" "[]"]
  note u = record_action_yields [of _ _ _ ?anon]
  from t a have "\<exists>kvs ui a es en.
         ?alice = JObj kvs \<and> map_of kvs ''userIdentity'' = Some (JObj ui) \<and>
         map_of ui ''arn'' = Some (JStr a) \<and>
         map_of kvs ''eventSource'' = Some (JStr es) \<and>
         map_of kvs ''eventName'' = Some (JStr en) \<and>
         ''arn:aws:iam::1:user/alice'' = fix_arn a \<and>
         ''s3 - GetObject'' = takeWhile (\<lambda>c. c \<noteq> CHR ''.'') es @ '' - '' @ en"
    by blast
  moreover from u n1 have r1: "record_action (JObj ?anon) = Inr None" by blast
  moreover from t n2 have r2: "record_action (JObj ?svc) = Inr None" by blast
  moreover from t e have "extract_records [?alice, JObj ?svc] [] =
        (None, merge_all (concat (map (\<lambda>r. case record_action r of
                                              Inr (Some p) \<Rightarrow> [p] | _ \<Rightarrow> []) [?alice, JObj ?svc])) [])"
    by blast
  ultimately show ?thesis using a by (simp add: merge_def)
qed

subsection \<open>C5: documents that cannot be loaded or have no records\<close>

text \<open>
  C5, as stated, fails: a document that is valid JSON and is not an object (here the
  empty array) has no \<open>Records\<close> key, and \<open>data.get\<close> raises AttributeError on it.
\<close>

theorem extract_not_object_counterexample:
  "extract_actions_from_log_file (\<lambda>raw :: unit. Inr (JArr [])) () [] = (Some AttributeError, [])"
  by (simp add: extract_actions_from_log_file_def)

text \<open>
  C5, amended: when the document cannot be loaded, the exception of the loader (the
  parse error) leaves the extractor and nothing is merged; when the document is a JSON
  object without a \<open>Records\<close> key the extractor merges nothing and does not fail;
  when the document is valid JSON and not an object the extractor fails with
  AttributeError.
\<close>

theorem extract_document_cases:
  "(load raw = Inl e \<longrightarrow> extract_actions_from_log_file load raw idx = (Some e, idx)) \<and>
   (load raw = Inr (JObj kvs) \<and> map_of kvs ''Records'' = None \<longrightarrow>
      extract_actions_from_log_file load raw idx = (None, idx)) \<and>
   (load raw = Inr data \<and> (\<forall>kvs. data \<noteq> JObj kvs) \<longrightarrow>
      extract_actions_from_log_file load raw idx = (Some AttributeError, idx))"
proof (intro conjI impI)
  show "extract_actions_from_log_file load raw idx = (Some e, idx)" if "load raw = Inl e"
    using that by (simp add: extract_actions_from_log_file_def)
  show "extract_actions_from_log_file load raw idx = (None, idx)"
    if "load raw = Inr (JObj kvs) \<and> map_of kvs ''Records'' = None"
    using that by (simp add: extract_actions_from_log_file_def)
  show "extract_actions_from_log_file load raw idx = (Some AttributeError, idx)"
    if "load raw = Inr data \<and> (\<forall>kvs. data \<noteq> JObj kvs)"
    using that by (cases data) (simp_all add: extract_actions_from_log_file_def)
qed

theorem extract_document_cases_witness:
  "extract_actions_from_log_file (\<lambda>raw :: unit. Inl JSONDecodeError) () [] = (Some JSONDecodeError, []) \<and>
   extract_actions_from_log_file (\<lambda>raw :: unit. Inr (JObj [(''Other'', JArr [])])) () [] = (None, []) \<and>
   extract_actions_from_log_file (\<lambda>raw :: unit. Inr (JNum 5)) () [] = (Some AttributeError, [])"
  using extract_document_cases [of "\<lambda>raw :: unit. Inl JSONDecodeError" "()" JSONDecodeError "[]" "[]" JNull]
    extract_document_cases [of "\<lambda>raw :: unit. Inr (JObj [(''Other'', JArr [])])" "()" KeyError "[]"
       "[(''Other'', JArr [])]" JNull]
    extract_document_cases [of "\<lambda>raw :: unit. Inr (JNum 5)" "()" KeyError "[]" "[]" "JNum 5"]
  by simp

subsection \<open>C3: which objects are downloaded\<close>

text \<open>
  C3, as stated, fails: line 67 asks whether \<open>.json.gz\<close> occurs anywhere in the key,
  not whether the key ends with it, so a key that goes on after the suffix is
  downloaded.
\<close>

theorem process_log_object_counterexample:
  "skipped_spec ''logs/a.json.gz.bak'' \<and>
   downloaded (snd (process_log_object (\<lambda>k. Inl ClientError :: py_error + unit) (\<lambda>raw. Inl OSError)
     \<lparr>Key = ''logs/a.json.gz.bak'', Size = 0\<rparr> initial_state)) = [''logs/a.json.gz.bak'']"
  by code_simp

text \<open>
  C3, amended: an object is skipped, with no download and no change of the state, if
  and only if its key does not contain \<open>.json.gz\<close> or its lower-cased key contains
  \<open>digest\<close>; every other object is downloaded once. A key that ends in \<open>.json.gz\<close>
  and has no \<open>digest\<close> in it is therefore downloaded. The key
  \<open>logs/CloudTrail-Digest-2024.json.gz\<close> is never downloaded,
  \<open>logs/archive.json.gz\<close> is, and \<open>logs/data.txt\<close> is skipped.
\<close>

theorem process_log_object_downloads:
  "(skipped (Key obj) \<longleftrightarrow>
      \<not> sublist ''.json.gz'' (Key obj) \<or> sublist ''digest'' (py_lower (Key obj))) \<and>
   (skipped (Key obj) \<longrightarrow> process_log_object s3_client load obj st = (None, st)) \<and>
   (\<not> skipped (Key obj) \<longrightarrow>
      downloaded (snd (process_log_object s3_client load obj st)) = downloaded st @ [Key obj]) \<and>
   (\<not> skipped_spec (Key obj) \<longrightarrow> \<not> skipped (Key obj)) \<and>
   skipped ''logs/CloudTrail-Digest-2024.json.gz'' \<and>
   \<not> skipped ''logs/archive.json.gz'' \<and>
   skipped ''logs/data.txt''"
proof (intro conjI impI)
  show "skipped (Key obj) \<longleftrightarrow>
      \<not> sublist ''.json.gz'' (Key obj) \<or> sublist ''digest'' (py_lower (Key obj))"
    by (simp add: skipped_def)
  show "process_log_object s3_client load obj st = (None, st)" if "skipped (Key obj)"
    using that by (simp add: process_log_object_def)
  show "downloaded (snd (process_log_object s3_client load obj st)) = downloaded st @ [Key obj]"
    if "\<not> skipped (Key obj)"
    using that by (simp add: process_log_object_def Let_def split: sum.splits prod.splits)
  show "\<not> skipped (Key obj)" if "\<not> skipped_spec (Key obj)"
    using that by (auto simp: skipped_def skipped_spec_def)
  show "skipped ''logs/CloudTrail-Digest-2024.json.gz''" by code_simp
  show "\<not> skipped ''logs/archive.json.gz''" by code_simp
  show "skipped ''logs/data.txt''" by code_simp
qed

theorem process_log_object_downloads_witness:
  "process_log_object (\<lambda>k. Inl ClientError :: py_error + unit) (\<lambda>raw. Inl OSError)
     \<lparr>Key = ''logs/CloudTrail-Digest-2024.json.gz'', Size = 0\<rparr> initial_state = (None, initial_state) \<and>
   process_log_object (\<lambda>k. Inl ClientError :: py_error + unit) (\<lambda>raw. Inl OSError)
     \<lparr>Key = ''logs/data.txt'', Size = 0\<rparr> initial_state = (None, initial_state) \<and>
   downloaded (snd (process_log_object (\<lambda>k. Inl ClientError :: py_error + unit) (\<lambda>raw. Inl OSError)
     \<lparr>Key = ''logs/archive.json.gz'', Size = 0\<rparr> initial_state)) = [''logs/archive.json.gz'']"
proof -
  let ?digest = "\<lparr>Key = ''logs/CloudTrail-Digest-2024.json.gz'', Size = 0\<rparr>"
  let ?text = "\<lparr>Key = ''logs/data.txt'', Size = 0\<rparr>"
  let ?archive = "\<lparr>Key = ''logs/archive.json.gz'', Size = 0\<rparr>"
  note t = process_log_object_downloads
    [where s3_client = "\<lambda>k. Inl ClientError :: py_error + unit" and load = "\<lambda>raw. Inl OSError"
       and st = initial_state]
  have d: "downloaded initial_state = []" by (simp add: initial_state_def)
  have s1: "skipped (Key ?digest)" by code_simp
  have s2: "skipped (Key ?text)" by code_simp
  have s3: "\<not> skipped (Key ?archive)" by code_simp
  from s1 t [of ?digest]
  have "process_log_object (\<lambda>k. Inl ClientError :: py_error + unit) (\<lambda>raw. Inl OSError)
     ?digest initial_state = (None, initial_state)"
    by blast
  moreover from s2 t [of ?text]
  have "process_log_object (\<lambda>k. Inl ClientError :: py_error + unit) (\<lambda>raw. Inl OSError)
     ?text initial_state = (None, initial_state)"
    by blast
  moreover from s3 t [of ?archive]
  have "downloaded (snd (process_log_object (\<lambda>k. Inl ClientError :: py_error + unit) (\<lambda>raw. Inl OSError)
     ?archive initial_state)) = downloaded initial_state @ [Key ?archive]"
    by blast
  ultimately show ?thesis by (simp add: d)
qed

section \<open>Properties of a run\<close>

lemma extract_actions_eq:
  "extract_actions_from_log_file load raw idx =
     (fst (extract_actions_from_log_file load raw []),
      merge_all (yielded (case load raw of
                            Inl e \<Rightarrow> []
                          | Inr data \<Rightarrow>
                              (case py_get data ''Records'' (JArr []) of
                                 Inl e \<Rightarrow> []
                               | Inr records \<Rightarrow>
                                   (case py_iter records of Inl e \<Rightarrow> [] | Inr rs \<Rightarrow> rs)))) idx)"
  by (simp add: extract_actions_from_log_file_def extract_records_eq split: sum.splits)

lemma process_log_object_eq:
  "process_log_object s3_client load obj st =
     (object_error s3_client load obj,
      st\<lparr>ALL_ACTIONS := merge_all (yielded (object_records s3_client load obj)) (ALL_ACTIONS st),
         downloaded := downloaded st @ (if skipped (Key obj) then [] else [Key obj])\<rparr>)"
proof (cases "skipped (Key obj)")
  case True
  then show ?thesis
    by (simp add: process_log_object_def object_error_def object_records_def)
next
  case False
  show ?thesis
  proof (cases "s3_client (Key obj)")
    case (Inl e)
    with False show ?thesis
      by (simp add: process_log_object_def object_error_def object_records_def)
  next
    case (Inr raw)
    with False show ?thesis
      using extract_actions_eq [of load raw "ALL_ACTIONS st"]
        extract_actions_eq [of load raw "ALL_ACTIONS initial_state"]
      by (simp add: process_log_object_def object_error_def object_records_def
            initial_state_def split: prod.splits)
  qed
qed

lemma run_pool_eq:
  "run_pool s3_client load objs st =
     (map (object_error s3_client load) objs,
      st\<lparr>ALL_ACTIONS :=
           merge_all (concat (map (\<lambda>obj. yielded (object_records s3_client load obj)) objs))
             (ALL_ACTIONS st),
         downloaded := downloaded st @ map Key (filter (\<lambda>obj. \<not> skipped (Key obj)) objs)\<rparr>)"
proof (induction objs arbitrary: st)
  case Nil
  then show ?case by simp
next
  case (Cons obj objs)
  then show ?case
    by (simp add: process_log_object_eq merge_all_append)
qed

lemma collect_results_None: "collect_results rs = None \<longleftrightarrow> (\<forall>r \<in> set rs. r = None)"
  by (induction rs rule: collect_results.induct) auto




subsection \<open>C1: what happens to the exception of one object\<close>





section \<open>Properties of the finished index\<close>

lemma merge_all_entry:
  assumes "(k, actions) \<in> set (merge_all ps [])"
  shows "k \<in> fst ` set ps \<and> actions = {l. (k, l) \<in> set ps}"
proof -
  have "distinct (map fst (merge_all ps []))"
    by (rule distinct_merge_all) simp
  with assms have "map_of (merge_all ps []) k = Some actions" by simp
  then show ?thesis
    by (auto simp: map_of_merge_all split: if_splits)
qed

lemma record_action_label: "record_action r = Inr (Some (k, l)) \<Longrightarrow> l \<noteq> []"
  by (auto simp: record_action_Some)

lemma record_action_identity:
  "record_action r = Inr (Some (k, l)) \<Longrightarrow>
     \<exists>kvs ui a. r = JObj kvs \<and> map_of kvs ''userIdentity'' = Some (JObj ui) \<and>
       map_of ui ''arn'' = Some (JStr a) \<and> k = fix_arn a"
  by (auto simp: record_action_Some)

lemma index_entry_invariant:
  assumes from_records: "\<forall>p \<in> set ps. \<exists>r \<in> set rs. record_action r = Inr (Some p)"
    and entry: "(k, actions) \<in> set (merge_all ps [])"
  shows "actions \<noteq> {} \<and> finite actions \<and>
     (\<forall>l \<in> actions. l \<noteq> [] \<and>
        (\<exists>r \<in> set rs. record_action r = Inr (Some (k, l)) \<and>
           (\<exists>kvs ui a. r = JObj kvs \<and> map_of kvs ''userIdentity'' = Some (JObj ui) \<and>
              map_of ui ''arn'' = Some (JStr a) \<and> k = fix_arn a)))"
proof -
  from entry have k: "k \<in> fst ` set ps" and a: "actions = {l. (k, l) \<in> set ps}"
    by (auto dest: merge_all_entry)
  from k a have "actions \<noteq> {}" by force
  moreover have "actions \<subseteq> snd ` set ps" unfolding a by force
  then have "finite actions" by (rule finite_subset) simp
  moreover have "l \<noteq> [] \<and>
        (\<exists>r \<in> set rs. record_action r = Inr (Some (k, l)) \<and>
           (\<exists>kvs ui a. r = JObj kvs \<and> map_of kvs ''userIdentity'' = Some (JObj ui) \<and>
              map_of ui ''arn'' = Some (JStr a) \<and> k = fix_arn a))" if "l \<in> actions" for l
  proof -
    from that a have "(k, l) \<in> set ps" by simp
    with from_records obtain r where r: "r \<in> set rs" "record_action r = Inr (Some (k, l))"
      by blast
    with record_action_label [OF r(2)] record_action_identity [OF r(2)] show ?thesis
      by blast
  qed
  ultimately show ?thesis by blast
qed

lemma run_pool_pairs:
  "p \<in> set (concat (map (\<lambda>obj. yielded (object_records s3_client load obj)) objs)) \<Longrightarrow>
     \<exists>r \<in> set (concat (map (object_records s3_client load) objs)).
        record_action r = Inr (Some p)"
  using set_yielded by fastforce

lemma extract_records_skip:
  "map_of kvs ''userIdentity'' = None \<or>
   (map_of kvs ''userIdentity'' = Some (JObj ui) \<and> map_of ui ''arn'' = None) \<Longrightarrow>
     extract_records (JObj kvs # rest) idx = extract_records rest idx"
  by (auto simp: record_action_no_identity record_action_no_arn)

subsection \<open>C8: what the index holds\<close>

text \<open>
  C8, as stated, fails: a record whose \<open>userIdentity.arn\<close> is the empty string is
  merged, so the index gets an entry, under the empty identity, that no record with a
  non-empty identity accounts for.
\<close>

theorem index_invariant_counterexample:
  "ALL_ACTIONS (snd (run_pool (\<lambda>k. Inr k :: py_error + string)
     (\<lambda>raw. Inr (JObj [(''Records'', JArr [JObj [
        (''eventSource'', JStr ''s3.amazonaws.com''), (''eventName'', JStr ''GetObject''),
        (''userIdentity'', JObj [(''arn'', JStr [])])]])]))
     [\<lparr>Key = ''logs/archive.json.gz'', Size = 1\<rparr>] initial_state)) =
   [([], {''s3 - GetObject''})]"
  by code_simp

text \<open>
  C8, amended: the index of a run is the result of merging, from the empty index, the
  pairs that the records of the listed objects yield, and this holds of every index
  reached by merging such pairs in any order. In such an index every entry has a
  finite, non-empty set of labels, every label is a non-empty string, and every label
  of an identity was yielded by a record whose \<open>userIdentity.arn\<close> is there and is a
  string (which may be empty) that normalises to the identity. A record without
  \<open>userIdentity\<close>, or whose \<open>userIdentity\<close> object has no \<open>arn\<close>, is passed over
  without a merge.
\<close>

theorem index_invariant:
  "((\<forall>p \<in> set ps. \<exists>r \<in> set rs. record_action r = Inr (Some p)) \<and>
    (k, actions) \<in> set (merge_all ps []) \<longrightarrow>
      actions \<noteq> {} \<and> finite actions \<and>
      (\<forall>l \<in> actions. l \<noteq> [] \<and>
         (\<exists>r \<in> set rs. record_action r = Inr (Some (k, l)) \<and>
            (\<exists>kvs ui a. r = JObj kvs \<and> map_of kvs ''userIdentity'' = Some (JObj ui) \<and>
               map_of ui ''arn'' = Some (JStr a) \<and> k = fix_arn a)))) \<and>
   ALL_ACTIONS (snd (run_pool s3_client load objs initial_state)) =
     merge_all (concat (map (\<lambda>obj. yielded (object_records s3_client load obj)) objs)) [] \<and>
   (\<forall>p \<in> set (concat (map (\<lambda>obj. yielded (object_records s3_client load obj)) objs)).
      \<exists>r \<in> set (concat (map (object_records s3_client load) objs)).
         record_action r = Inr (Some p)) \<and>
   (map_of kvs ''userIdentity'' = None \<or>
    (map_of kvs ''userIdentity'' = Some (JObj ui) \<and> map_of ui ''arn'' = None) \<longrightarrow>
      extract_records (JObj kvs # rest) idx = extract_records rest idx)"
proof (intro conjI impI)
  show "ALL_ACTIONS (snd (run_pool s3_client load objs initial_state)) =
     merge_all (concat (map (\<lambda>obj. yielded (object_records s3_client load obj)) objs)) []"
    by (simp add: run_pool_eq initial_state_def)
  show "\<forall>p \<in> set (concat (map (\<lambda>obj. yielded (object_records s3_client load obj)) objs)).
      \<exists>r \<in> set (concat (map (object_records s3_client load) objs)).
         record_action r = Inr (Some p)"
    using run_pool_pairs [of _ s3_client load objs] by blast
  show "extract_records (JObj kvs # rest) idx = extract_records rest idx"
    if "map_of kvs ''userIdentity'' = None \<or>
        (map_of kvs ''userIdentity'' = Some (JObj ui) \<and> map_of ui ''arn'' = None)"
    using that by (rule extract_records_skip)
next
  assume a: "(\<forall>p \<in> set ps. \<exists>r \<in> set rs. record_action r = Inr (Some p)) \<and>
    (k, actions) \<in> set (merge_all ps [])"
  note inv = index_entry_invariant [OF conjunct1 [OF a] conjunct2 [OF a]]
  from inv show "actions \<noteq> {}" by blast
  from inv show "finite actions" by blast
  from inv show "\<forall>l \<in> actions. l \<noteq> [] \<and>
         (\<exists>r \<in> set rs. record_action r = Inr (Some (k, l)) \<and>
            (\<exists>kvs ui a. r = JObj kvs \<and> map_of kvs ''userIdentity'' = Some (JObj ui) \<and>
               map_of ui ''arn'' = Some (JStr a) \<and> k = fix_arn a))" by blast
qed


theorem index_invariant_witness:
  "finite {''s3 - GetObject''} \<and>
   (\<exists>r \<in> set [JObj [(''eventSource'', JStr ''s3.amazonaws.com''),
                     (''eventName'', JStr ''GetObject''),
                     (''userIdentity'', JObj [(''arn'', JStr ''arn:aws:iam::1:user/alice'')])]].
      record_action r = Inr (Some (''arn:aws:iam::1:user/alice'', ''s3 - GetObject'')) \<and>
      (\<exists>kvs ui a. r = JObj kvs \<and> map_of kvs ''userIdentity'' = Some (JObj ui) \<and>
         map_of ui ''arn'' = Some (JStr a) \<and> ''arn:aws:iam::1:user/alice'' = fix_arn a)) \<and>
   extract_records
     [JObj [(''eventName'', JStr ''GetObject'')],
      JObj [(''eventSource'', JStr ''s3.amazonaws.com''), (''eventName'', JStr ''GetObject''),
            (''userIdentity'', JObj [(''arn'', JStr ''arn:aws:iam::1:user/alice'')])]] [] =
   extract_records
     [JObj [(''eventSource'', JStr ''s3.amazonaws.com''), (''eventName'', JStr ''GetObject''),
            (''userIdentity'', JObj [(''arn'', JStr ''arn:aws:iam::1:user/alice'')])]] []"
proof -
  let ?alice = "JObj [(''eventSource'', JStr ''s3.amazonaws.com''), (''eventName'', JStr ''GetObject''),
            (''userIdentity'', JObj [(''arn'', JStr ''arn:aws:iam::1:user/alice'')])]"
  let ?ps = "[(''arn:aws:iam::1:user/alice'', ''s3 - GetObject'')]"
  have r: "record_action ?alice = Inr (Some (''arn:aws:iam::1:user/alice'', ''s3 - GetObject''))"
    by code_simp
  then have h1: "\<forall>p \<in> set ?ps. \<exists>r \<in> set [?alice]. record_action r = Inr (Some p)"
    by simp
  have h2: "(''arn:aws:iam::1:user/alice'', {''s3 - GetObject''}) \<in> set (merge_all ?ps [])"
    by (simp add: merge_def)
  have h3: "map_of [(''eventName'', JStr ''GetObject'')] ''userIdentity'' = None"
    by simp
  note t = index_invariant [of ?ps "[?alice]" "''arn:aws:iam::1:user/alice''" "{''s3 - GetObject''}"
      _ _ _ "[(''eventName'', JStr ''GetObject'')]" _ "[?alice]" "[]"]
  from t h1 h2 have "finite {''s3 - GetObject''} \<and>
    (\<forall>l \<in> {''s3 - GetObject''}. l \<noteq> [] \<and>
      (\<exists>r \<in> set [?alice]. record_action r = Inr (Some (''arn:aws:iam::1:user/alice'', l)) \<and>
         (\<exists>kvs ui a. r = JObj kvs \<and> map_of kvs ''userIdentity'' = Some (JObj ui) \<and>
            map_of ui ''arn'' = Some (JStr a) \<and> ''arn:aws:iam::1:user/alice'' = fix_arn a)))"
    by blast
  then have "finite {''s3 - GetObject''} \<and>
    (\<exists>r \<in> set [?alice]. record_action r = Inr (Some (''arn:aws:iam::1:user/alice'', ''s3 - GetObject'')) \<and>
         (\<exists>kvs ui a. r = JObj kvs \<and> map_of kvs ''userIdentity'' = Some (JObj ui) \<and>
            map_of ui ''arn'' = Some (JStr a) \<and> ''arn:aws:iam::1:user/alice'' = fix_arn a))"
    by blast
  moreover from t h3
  have "extract_records [JObj [(''eventName'', JStr ''GetObject'')], ?alice] [] =
        extract_records [?alice] []"
    by blast
  ultimately show ?thesis by blast
qed

section \<open>Properties of the report\<close>

lemma update_new: "map_of al k = None \<Longrightarrow> AList.update k v al = al @ [(k, v)]"
  by (induction al) (auto split: if_splits)

lemma filter_loop:
  "distinct (map fst idx) \<Longrightarrow> fst ` set acc \<inter> fst ` set idx = {} \<Longrightarrow>
     foldl (\<lambda>tmp (arn, actions). if P arn then AList.update arn actions tmp else tmp) acc idx =
       acc @ filter (\<lambda>(arn, actions). P arn) idx"
proof (induction idx arbitrary: acc)
  case Nil
  then show ?case by simp
next
  case (Cons entry idx)
  obtain k v where entry: "entry = (k, v)" by (cases entry)
  from Cons.prems entry have fresh: "map_of acc k = None"
    by (auto simp: map_of_eq_None_iff)
  show ?case
  proof (cases "P k")
    case True
    from Cons.prems entry
    have "fst ` set (acc @ [(k, v)]) \<inter> fst ` set idx = {}" by auto
    with Cons.IH [of "acc @ [(k, v)]"] Cons.prems
    have "foldl (\<lambda>tmp (arn, actions). if P arn then AList.update arn actions tmp else tmp)
            (acc @ [(k, v)]) idx = (acc @ [(k, v)]) @ filter (\<lambda>(arn, actions). P arn) idx"
      by simp
    with True entry fresh show ?thesis by (simp add: update_new)
  next
    case False
    from Cons.prems entry have "fst ` set acc \<inter> fst ` set idx = {}" by auto
    with Cons.IH [of acc] Cons.prems False entry show ?thesis by simp
  qed
qed

lemma filter_by_name_eq:
  assumes "distinct (map fst idx)"
  shows "filter_by_name target_name idx =
           filter (\<lambda>(arn, actions). case target_name of None \<Rightarrow> True | Some t \<Rightarrow> sublist t arn) idx"
proof (cases target_name)
  case None
  then show ?thesis by (simp add: filter_by_name_def)
next
  case (Some t)
  show ?thesis
  proof (cases "t = []")
    case True
    with Some show ?thesis by (simp add: filter_by_name_def)
  next
    case False
    with Some assms filter_loop [of idx "[]" "sublist t"] show ?thesis
      by (simp add: filter_by_name_def)
  qed
qed

lemma finite_run_index:
  assumes "(k, actions) \<in> set (ALL_ACTIONS (snd (run_pool s3_client load objs initial_state)))"
  shows "finite actions"
proof -
  from assms have "(k, actions) \<in>
      set (merge_all (concat (map (\<lambda>obj. yielded (object_records s3_client load obj)) objs)) [])"
    by (simp add: run_pool_eq initial_state_def)
  then have "actions \<subseteq>
      snd ` set (concat (map (\<lambda>obj. yielded (object_records s3_client load obj)) objs))"
    by (force dest: merge_all_entry)
  then show ?thesis by (rule finite_subset) simp
qed

lemma distinct_run_index:
  "distinct (map fst (ALL_ACTIONS (snd (run_pool s3_client load objs initial_state))))"
  by (simp add: run_pool_eq initial_state_def distinct_merge_all)

subsection \<open>C9: the report\<close>

text \<open>
  C9, as stated, fails in its last part: with a filter, line 103 binds the global
  \<open>ALL_ACTIONS\<close> to the filtered dictionary, so after the report the index no longer
  holds the identities that do not match.
\<close>

theorem report_filter_counterexample:
  "ALL_ACTIONS (snd (run_pool (\<lambda>k. Inr k :: py_error + string)
     (\<lambda>raw. Inr (JObj [(''Records'', JArr [
        JObj [(''eventSource'', JStr ''s3.amazonaws.com''), (''eventName'', JStr ''GetObject''),
              (''userIdentity'', JObj [(''arn'', JStr ''arn:aws:iam::1:user/alice'')])],
        JObj [(''eventSource'', JStr ''ec2.amazonaws.com''), (''eventName'', JStr ''RunInstances''),
              (''userIdentity'', JObj [(''arn'', JStr ''arn:aws:iam::1:user/bob'')])]])]))
     [\<lparr>Key = ''logs/archive.json.gz'', Size = 1\<rparr>] initial_state)) =
   [(''arn:aws:iam::1:user/alice'', {''s3 - GetObject''}),
    (''arn:aws:iam::1:user/bob'', {''ec2 - RunInstances''})] \<and>
   ALL_ACTIONS (snd (main 10 (Some ''alice'')
     (Inr [Some [\<lparr>Key = ''logs/archive.json.gz'', Size = 1\<rparr>]])
     (\<lambda>k. Inr k :: py_error + string)
     (\<lambda>raw. Inr (JObj [(''Records'', JArr [
        JObj [(''eventSource'', JStr ''s3.amazonaws.com''), (''eventName'', JStr ''GetObject''),
              (''userIdentity'', JObj [(''arn'', JStr ''arn:aws:iam::1:user/alice'')])],
        JObj [(''eventSource'', JStr ''ec2.amazonaws.com''), (''eventName'', JStr ''RunInstances''),
              (''userIdentity'', JObj [(''arn'', JStr ''arn:aws:iam::1:user/bob'')])]])]))
     initial_state)) =
   [(''arn:aws:iam::1:user/alice'', {''s3 - GetObject''})]"
  by code_simp

text \<open>
  C9, amended: for an index with distinct identities and finite sets of labels, which
  the index of every run is, and every optional filter, the report has exactly the
  entries of the index whose identity contains the filter as a substring (all of them
  when the filter is absent or empty), in the order of the index, each with the labels
  of its set sorted and without repetition. When no object failed, \<open>main\<close> prints
  these entries, and it leaves the global \<open>ALL_ACTIONS\<close> bound to the filtered
  index: the entries that do not match are gone from it.
\<close>

theorem report_filter:
  assumes "distinct (map fst idx)" and "\<forall>(k, actions) \<in> set idx. finite actions"
  shows
    "sorted_actions (filter_by_name target_name idx) =
       map (\<lambda>(k, actions). (k, sorted_list_of_set actions))
         (filter (\<lambda>(k, actions). case target_name of None \<Rightarrow> True | Some t \<Rightarrow> sublist t k) idx) \<and>
     (\<forall>(k, actions) \<in> set idx.
        sorted (sorted_list_of_set actions) \<and> distinct (sorted_list_of_set actions) \<and>
        set (sorted_list_of_set actions) = actions) \<and>
     (target_name = None \<or> target_name = Some [] \<longrightarrow> filter_by_name target_name idx = idx) \<and>
     distinct (map fst (ALL_ACTIONS (snd (run_pool s3_client load objs initial_state)))) \<and>
     (\<forall>(k, actions) \<in> set (ALL_ACTIONS (snd (run_pool s3_client load objs initial_state))).
        finite actions) \<and>
     (0 < threads \<and> get_all_keys pages = Inr objs \<and>
      (\<forall>obj \<in> set objs. object_error s3_client load obj = None) \<longrightarrow>
        fst (main threads target_name pages s3_client load initial_state) =
          Inr (print_report (sorted_actions (filter_by_name target_name
                 (ALL_ACTIONS (snd (run_pool s3_client load objs initial_state)))))) \<and>
        ALL_ACTIONS (snd (main threads target_name pages s3_client load initial_state)) =
          filter_by_name target_name
            (ALL_ACTIONS (snd (run_pool s3_client load objs initial_state))))"
proof (intro conjI impI)
  show "sorted_actions (filter_by_name target_name idx) =
       map (\<lambda>(k, actions). (k, sorted_list_of_set actions))
         (filter (\<lambda>(k, actions). case target_name of None \<Rightarrow> True | Some t \<Rightarrow> sublist t k) idx)"
    using assms(1) by (simp add: sorted_actions_def filter_by_name_eq)
  show "\<forall>(k, actions) \<in> set idx.
        sorted (sorted_list_of_set actions) \<and> distinct (sorted_list_of_set actions) \<and>
        set (sorted_list_of_set actions) = actions"
    using assms(2) by auto
  show "filter_by_name target_name idx = idx" if "target_name = None \<or> target_name = Some []"
    using that by (auto simp: filter_by_name_def)
  show "distinct (map fst (ALL_ACTIONS (snd (run_pool s3_client load objs initial_state))))"
    by (rule distinct_run_index)
  show "\<forall>(k, actions) \<in> set (ALL_ACTIONS (snd (run_pool s3_client load objs initial_state))).
        finite actions"
    using finite_run_index [of _ _ s3_client load objs] by blast
next
  assume ok: "0 < threads \<and> get_all_keys pages = Inr objs \<and>
      (\<forall>obj \<in> set objs. object_error s3_client load obj = None)"
  then have c: "collect_results (map (object_error s3_client load) objs) = None"
    by (simp add: collect_results_None)
  obtain results st1 where r: "run_pool s3_client load objs initial_state = (results, st1)"
    by (cases "run_pool s3_client load objs initial_state")
  with c have c': "collect_results results = None"
    by (simp add: run_pool_eq)
  from ok r c' show "fst (main threads target_name pages s3_client load initial_state) =
          Inr (print_report (sorted_actions (filter_by_name target_name
                 (ALL_ACTIONS (snd (run_pool s3_client load objs initial_state))))))"
    by (simp add: main_def Let_def)
  from ok r c' show "ALL_ACTIONS (snd (main threads target_name pages s3_client load initial_state)) =
          filter_by_name target_name
            (ALL_ACTIONS (snd (run_pool s3_client load objs initial_state)))"
    by (simp add: main_def Let_def)
qed


theorem report_filter_witness:
  "sorted_actions (filter_by_name (Some ''A'') [(''A'', {''y'', ''x''}), (''B'', {''z''})]) =
     [(''A'', [''x'', ''y''])] \<and>
   sorted_actions (filter_by_name None [(''A'', {''y'', ''x''}), (''B'', {''z''})]) =
     [(''A'', [''x'', ''y'']), (''B'', [''z''])] \<and>
   filter_by_name None [(''A'', {''y'', ''x''}), (''B'', {''z''})] =
     [(''A'', {''y'', ''x''}), (''B'', {''z''})] \<and>
   fst (main 10 (Some ''alice'')
     (Inr [Some [\<lparr>Key = ''logs/archive.json.gz'', Size = 1\<rparr>]])
     (\<lambda>k. Inr k :: py_error + string)
     (\<lambda>raw. Inr (JObj [(''Records'', JArr [
        JObj [(''eventSource'', JStr ''s3.amazonaws.com''), (''eventName'', JStr ''GetObject''),
              (''userIdentity'', JObj [(''arn'', JStr ''arn:aws:iam::1:user/alice'')])],
        JObj [(''eventSource'', JStr ''ec2.amazonaws.com''), (''eventName'', JStr ''RunInstances''),
              (''userIdentity'', JObj [(''arn'', JStr ''arn:aws:iam::1:user/bob'')])]])]))
     initial_state) =
   Inr [''Actions performed by arn:aws:iam::1:user/alice'', ''- s3 - GetObject'']"
proof -
  let ?idx = "[(''A'', {''y'', ''x''}), (''B'', {''z''})] :: index"
  let ?s3 = "\<lambda>k. Inr k :: py_error + string"
  let ?load = "\<lambda>raw :: string. Inr (JObj [(''Records'', JArr [
        JObj [(''eventSource'', JStr ''s3.amazonaws.com''), (''eventName'', JStr ''GetObject''),
              (''userIdentity'', JObj [(''arn'', JStr ''arn:aws:iam::1:user/alice'')])],
        JObj [(''eventSource'', JStr ''ec2.amazonaws.com''), (''eventName'', JStr ''RunInstances''),
              (''userIdentity'', JObj [(''arn'', JStr ''arn:aws:iam::1:user/bob'')])]])]) :: py_error + json"
  let ?obj = "\<lparr>Key = ''logs/archive.json.gz'', Size = 1\<rparr>"
  let ?pages = "Inr [Some [?obj]] :: py_error + log_obj list option list"
  have d: "distinct (map fst ?idx)" by simp
  have f: "\<forall>(k, actions) \<in> set ?idx. finite actions" by simp
  have run: "0 < (10::int) \<and> get_all_keys ?pages = Inr [?obj] \<and>
             (\<forall>obj \<in> set [?obj]. object_error ?s3 ?load obj = None)"
  proof -
    have "object_error ?s3 ?load ?obj = None" by code_simp
    then show ?thesis by (simp add: get_all_keys_def)
  qed
  have v1: "map (\<lambda>(k, actions). (k, sorted_list_of_set actions))
         (filter (\<lambda>(k, actions). case Some ''A'' of None \<Rightarrow> True | Some t \<Rightarrow> sublist t k) ?idx) =
       [(''A'', [''x'', ''y''])]"
    by code_simp
  have v2: "map (\<lambda>(k, actions). (k, sorted_list_of_set actions))
         (filter (\<lambda>(k, actions). case None :: string option of None \<Rightarrow> True | Some t \<Rightarrow> sublist t k) ?idx) =
       [(''A'', [''x'', ''y'']), (''B'', [''z''])]"
    by code_simp
  have v3: "print_report (sorted_actions (filter_by_name (Some ''alice'')
                 (ALL_ACTIONS (snd (run_pool ?s3 ?load [?obj] initial_state))))) =
      [''Actions performed by arn:aws:iam::1:user/alice'', ''- s3 - GetObject'']"
    by code_simp
  from report_filter [OF d f, of "Some ''A''"]
  have "sorted_actions (filter_by_name (Some ''A'') ?idx) = [(''A'', [''x'', ''y''])]"
    unfolding v1 by blast
  moreover from report_filter [OF d f, of None]
  have "sorted_actions (filter_by_name None ?idx) = [(''A'', [''x'', ''y'']), (''B'', [''z''])] \<and>
        filter_by_name None ?idx = ?idx"
    unfolding v2 by blast
  moreover from report_filter [OF d f, of "Some ''alice''" ?s3 ?load "[?obj]" 10 ?pages] run
  have "fst (main 10 (Some ''alice'') ?pages ?s3 ?load initial_state) =
          Inr (print_report (sorted_actions (filter_by_name (Some ''alice'')
                 (ALL_ACTIONS (snd (run_pool ?s3 ?load [?obj] initial_state))))))"
    by blast
  ultimately show ?thesis unfolding v3 by blast
qed

end
